theory Spec2Isabelle
  imports Main "HOL-Library.Char_ord" "HOL-Library.List_Lexorder" "HOL-Library.AList"
    "HOL-Library.Multiset"
begin

section \<open>Role structure extraction and tree rendering\<close>

text \<open>
  The two methods of \<^verbatim>\<open>AnsibleRoleDocGenerator\<close> that build the nested
  structure of a role from its file paths (\<^verbatim>\<open>_analyze_structure\<close>) and render it
  as a text tree (\<^verbatim>\<open>_format_structure\<close>). Both scripts of the repository carry
  the same two methods; they differ only in the separator they split paths on
  (\<^verbatim>\<open>'/'\<close> against \<^verbatim>\<open>os.sep\<close>).

  Python strings are modelled as \<^typ>\<open>string\<close>, holding the UTF-8 encoding of the
  text: emptiness, concatenation, splitting on an ASCII separator and the
  lexicographic order by code point are the same on both sides.
\<close>

subsection \<open>Values\<close>

text \<open>
  The structure is a dictionary whose values are dictionaries again (one per
  directory) or, under the key \<^verbatim>\<open>"__files__"\<close>, a list of file names. A
  dictionary keeps its keys in insertion order: it is an association list with
  distinct keys, read with \<^const>\<open>map_of\<close>, assigned with \<^const>\<open>AList.update\<close>
  (an existing key keeps its place, a new key goes to the end) and popped with
  \<^const>\<open>AList.delete\<close>.
\<close>

datatype pyval = PyDict "(string \<times> pyval) list" | PyList "string list"

datatype error = TypeError | AttributeError

definition FILES :: string where
  "FILES = ''__files__''"

text \<open>Truth value, length and iteration order of a dictionary or a list.\<close>

fun truthy :: "pyval \<Rightarrow> bool" where
  "truthy (PyDict kvs) = (kvs \<noteq> [])"
| "truthy (PyList xs) = (xs \<noteq> [])"

fun py_len :: "pyval \<Rightarrow> nat" where
  "py_len (PyDict kvs) = length kvs"
| "py_len (PyList xs) = length xs"

fun py_iter :: "pyval \<Rightarrow> string list" where
  "py_iter (PyDict kvs) = map fst kvs"
| "py_iter (PyList xs) = xs"

definition py_sorted :: "pyval \<Rightarrow> string list" where
  "py_sorted v = sort (py_iter v)"

subsection \<open>Strings\<close>

text \<open>\<^verbatim>\<open>s.split(sep)\<close> for a one-character separator: never empty.\<close>

fun split_sep :: "char \<Rightarrow> string \<Rightarrow> string list" where
  "split_sep c [] = [[]]"
| "split_sep c (x # xs) =
     (if x = c then [] # split_sep c xs
      else (x # hd (split_sep c xs)) # tl (split_sep c xs))"

text \<open>\<^verbatim>\<open>sep.join(lines)\<close>.\<close>

fun join :: "string \<Rightarrow> string list \<Rightarrow> string" where
  "join sep [] = []"
| "join sep [x] = x"
| "join sep (x # y # ys) = x @ sep @ join sep (y # ys)"

definition NL :: string where
  "NL = [CHR 0x0A]"

text \<open>The branch glyphs, each followed by its padding, as UTF-8.\<close>

definition LAST_BRANCH :: string where
  "LAST_BRANCH = [CHR 0xE2, CHR 0x94, CHR 0x94, CHR 0xE2, CHR 0x94, CHR 0x80,
                  CHR 0xE2, CHR 0x94, CHR 0x80, CHR '' '']"

definition MID_BRANCH :: string where
  "MID_BRANCH = [CHR 0xE2, CHR 0x94, CHR 0x9C, CHR 0xE2, CHR 0x94, CHR 0x80,
                 CHR 0xE2, CHR 0x94, CHR 0x80, CHR '' '']"

definition BAR_INDENT :: string where
  "BAR_INDENT = [CHR 0xE2, CHR 0x94, CHR 0x82, CHR '' '', CHR '' '', CHR '' '']"

definition BLANK_INDENT :: string where
  "BLANK_INDENT = ''    ''"

subsection \<open>\<^verbatim>\<open>_analyze_structure\<close>\<close>

text \<open>
  The inner loop over the parts of one path, started at \<^verbatim>\<open>current_level\<close>. The
  dictionaries are mutated in place in the source; here the loop returns the
  updated level and every caller stores it back under the key it came from.
  \<^verbatim>\<open>i == len(parts) - 1\<close> is \<open>rest = []\<close>. Subscripting a list with a string
  raises \<^verbatim>\<open>TypeError\<close>, \<^verbatim>\<open>append\<close> on a dictionary raises \<^verbatim>\<open>AttributeError\<close>.
\<close>

fun add_parts :: "string list \<Rightarrow> pyval \<Rightarrow> error + pyval" where
  "add_parts [] current_level = Inr current_level"
| "add_parts (part # rest) current_level =
     (if rest = [] \<and> part \<noteq> [] then
        (case current_level of
           PyList xs \<Rightarrow> Inl TypeError
         | PyDict kvs \<Rightarrow>
             (case map_of kvs FILES of
                None \<Rightarrow> Inr (PyDict (AList.update FILES (PyList [part]) kvs))
              | Some (PyList fs) \<Rightarrow> Inr (PyDict (AList.update FILES (PyList (fs @ [part])) kvs))
              | Some (PyDict d) \<Rightarrow> Inl AttributeError))
      else if part \<noteq> [] then
        (case current_level of
           PyList xs \<Rightarrow> Inl TypeError
         | PyDict kvs \<Rightarrow>
             (case add_parts rest (case map_of kvs part of None \<Rightarrow> PyDict [] | Some v \<Rightarrow> v) of
                Inl e \<Rightarrow> Inl e
              | Inr child \<Rightarrow> Inr (PyDict (AList.update part child kvs))))
      else add_parts rest current_level)"

text \<open>The role name at the beginning of a path of more than one part is dropped.\<close>

definition strip_role :: "string \<Rightarrow> string list \<Rightarrow> string list" where
  "strip_role role_name parts =
     (if length parts > 1 \<and> hd parts = role_name then tl parts else parts)"

fun analyze_loop :: "char \<Rightarrow> string \<Rightarrow> string list \<Rightarrow> pyval \<Rightarrow> error + pyval" where
  "analyze_loop sep role_name [] structure = Inr structure"
| "analyze_loop sep role_name (file_path # file_list) structure =
     (case add_parts (strip_role role_name (split_sep sep file_path)) structure of
        Inl e \<Rightarrow> Inl e
      | Inr structure' \<Rightarrow> analyze_loop sep role_name file_list structure')"

definition analyze_structure_sep :: "char \<Rightarrow> string \<Rightarrow> string list \<Rightarrow> error + pyval" where
  "analyze_structure_sep sep role_name file_list =
     analyze_loop sep role_name file_list (PyDict [])"

definition analyze_structure :: "string \<Rightarrow> string list \<Rightarrow> error + pyval" where
  "analyze_structure = analyze_structure_sep CHR ''/''"

subsection \<open>\<^verbatim>\<open>_format_structure\<close>\<close>

text \<open>The lines of the files of one level, \<^verbatim>\<open>i == len(files) - 1\<close> marking the last.\<close>

definition file_lines :: "string \<Rightarrow> string \<Rightarrow> pyval \<Rightarrow> string list" where
  "file_lines prefix indent files =
     map (\<lambda>(i, filename).
            if prefix = [] then filename
            else indent @ (if Suc i = py_len files then LAST_BRANCH else MID_BRANCH) @ filename)
         (enumerate 0 (py_sorted files))"

text \<open>
  \<^verbatim>\<open>structure.pop("__files__", []) if "__files__" in structure else []\<close>: the
  value under the files key (a list, or whatever else is stored there) and the
  dictionary without that key.
\<close>

definition pop_files :: "(string \<times> pyval) list \<Rightarrow> pyval \<times> (string \<times> pyval) list" where
  "pop_files kvs =
     ((case map_of kvs FILES of Some v \<Rightarrow> v | None \<Rightarrow> PyList []), AList.delete FILES kvs)"

text \<open>
  The method pops the files entry of the dictionary it is given, so it returns
  the text together with the structure as the call leaves it. \<open>format_items\<close>
  is the loop over \<^verbatim>\<open>items\<close>; \<^verbatim>\<open>i == len(items) - 1\<close> is \<open>rest = []\<close>. It
  returns the elements appended to \<^verbatim>\<open>lines\<close> and the items with their values
  as the recursive calls leave them. Called on a list, the method raises: \<^verbatim>\<open>pop\<close>
  with two arguments is a \<^verbatim>\<open>TypeError\<close>, \<^verbatim>\<open>items\<close> an \<^verbatim>\<open>AttributeError\<close>.
\<close>

lemma size_list_delete_le:
  "size_list f (AList.delete k kvs) \<le> size_list f kvs"
  by (induction kvs) (auto simp: AList.delete_eq)

function format_structure :: "pyval \<Rightarrow> string \<Rightarrow> string \<Rightarrow> error + (string \<times> pyval)"
  and format_items :: "(string \<times> pyval) list \<Rightarrow> pyval \<Rightarrow> string \<Rightarrow> string \<Rightarrow>
                        error + (string list \<times> (string \<times> pyval) list)" where
  "format_structure (PyList xs) prefix indent =
     (if FILES \<in> set xs then Inl TypeError else Inl AttributeError)"
| "format_structure (PyDict kvs) prefix indent =
     (case format_items (snd (pop_files kvs)) (fst (pop_files kvs)) prefix indent of
        Inl e \<Rightarrow> Inl e
      | Inr (lines, items') \<Rightarrow>
          Inr (join NL (lines @ file_lines prefix indent (fst (pop_files kvs))), PyDict items'))"
| "format_items [] files prefix indent = Inr ([], [])"
| "format_items ((key, val) # rest) files prefix indent =
     (let is_last_dir = (rest = [] \<and> \<not> truthy files);
          line = (if prefix = [] then key @ ''/''
                  else indent @ (if is_last_dir then LAST_BRANCH else MID_BRANCH) @ key @ ''/'');
          new_indent = (if prefix = [] then BLANK_INDENT
                        else indent @ (if is_last_dir then BLANK_INDENT else BAR_INDENT))
      in case (if truthy val
               then (case format_structure val (prefix @ ''/'' @ key) new_indent of
                       Inl e \<Rightarrow> Inl e
                     | Inr (sub_structure, val') \<Rightarrow> Inr ([sub_structure], val'))
               else Inr ([], val)) of
           Inl e \<Rightarrow> Inl e
         | Inr (sub, val') \<Rightarrow>
             (case format_items rest files prefix indent of
                Inl e \<Rightarrow> Inl e
              | Inr (lines, rest') \<Rightarrow> Inr (line # sub @ lines, (key, val') # rest')))"
  by pat_completeness auto
termination
  apply (relation "measure (\<lambda>x. case x of
            Inl (v, _, _) \<Rightarrow> 2 * size v + 1
          | Inr (items, _, _, _) \<Rightarrow> 2 * size_list (size_prod (\<lambda>_. 0) size) items + 2)")
     apply simp
    apply (simp add: pop_files_def le_imp_less_Suc size_list_delete_le)
   apply simp
  apply simp
  done

text \<open>
  What \<^verbatim>\<open>generate_documentation\<close> does with the two: the structure of the file
  list is analysed once and formatted once with the default arguments.
\<close>

definition structure_text :: "string \<Rightarrow> string list \<Rightarrow> error + string" where
  "structure_text role_name file_list =
     (case analyze_structure role_name file_list of
        Inl e \<Rightarrow> Inl e
      | Inr structure \<Rightarrow>
          (case format_structure structure [] [] of
             Inl e \<Rightarrow> Inl e
           | Inr (text, structure') \<Rightarrow> Inr text))"

subsection \<open>Reading a structure\<close>

text \<open>
  The parts a path is inserted with, and what the inner loop makes of them: the
  last part names a file unless it is empty, every earlier part that is not
  empty names a directory.
\<close>

definition path_parts :: "char \<Rightarrow> string \<Rightarrow> string \<Rightarrow> string list" where
  "path_parts sep role_name file_path = strip_role role_name (split_sep sep file_path)"

definition dirs_of :: "string list \<Rightarrow> string list" where
  "dirs_of parts = filter (\<lambda>part. part \<noteq> []) (butlast parts)"

definition file_of :: "string list \<Rightarrow> string" where
  "file_of parts = (if parts = [] then [] else last parts)"

text \<open>The value found by following a list of keys down from a structure.\<close>

fun node_at :: "pyval \<Rightarrow> string list \<Rightarrow> pyval option" where
  "node_at v [] = Some v"
| "node_at (PyList xs) (k # ks) = None"
| "node_at (PyDict kvs) (k # ks) =
     (case map_of kvs k of None \<Rightarrow> None | Some v \<Rightarrow> node_at v ks)"

text \<open>
  The file list and the directory names (the keys other than the files key, in
  the order of the dictionary) of the level reached through a list of
  directory names; both are empty where there is no such level.
\<close>

fun files_at :: "pyval \<Rightarrow> string list \<Rightarrow> string list" where
  "files_at (PyList xs) ds = []"
| "files_at (PyDict kvs) [] =
     (case map_of kvs FILES of Some (PyList fs) \<Rightarrow> fs | _ \<Rightarrow> [])"
| "files_at (PyDict kvs) (d # ds) =
     (case map_of kvs d of None \<Rightarrow> [] | Some v \<Rightarrow> files_at v ds)"

fun subdirs_at :: "pyval \<Rightarrow> string list \<Rightarrow> string list" where
  "subdirs_at (PyList xs) ds = []"
| "subdirs_at (PyDict kvs) [] = filter (\<lambda>k. k \<noteq> FILES) (map fst kvs)"
| "subdirs_at (PyDict kvs) (d # ds) =
     (case map_of kvs d of None \<Rightarrow> [] | Some v \<Rightarrow> subdirs_at v ds)"

text \<open>
  The directory name that a path with these parts puts into the level reached
  through \<open>ds\<close>, if it runs through that level; and a list of names without
  its repetitions, each name where it stands first.
\<close>

definition dir_below :: "string list \<Rightarrow> string list \<Rightarrow> string list" where
  "dir_below ds parts =
     (if length ds < length (dirs_of parts) \<and> take (length ds) (dirs_of parts) = ds
      then [dirs_of parts ! length ds] else [])"

definition first_seen :: "string list \<Rightarrow> string list" where
  "first_seen names = rev (remdups (rev names))"

text \<open>No part of any path is the files key.\<close>

definition plain_paths :: "char \<Rightarrow> string list \<Rightarrow> bool" where
  "plain_paths sep file_list = (\<forall>p \<in> set file_list. FILES \<notin> set (split_sep sep p))"

text \<open>
  A structure in which the files key holds a list and every other key a
  structure of the same kind.
\<close>

fun plain_structure :: "pyval \<Rightarrow> bool" where
  "plain_structure (PyList xs) = False"
| "plain_structure (PyDict kvs) =
     (\<forall>(k, v) \<in> set kvs.
        if k = FILES then (case v of PyList fs \<Rightarrow> True | PyDict d \<Rightarrow> False)
        else plain_structure v)"

section \<open>The inner loop, case by case\<close>

lemma add_parts_skip: "add_parts ([] # rest) t = add_parts rest t"
  by simp

lemma add_parts_file:
  "part \<noteq> [] \<Longrightarrow> add_parts [part] (PyDict kvs) =
     (case map_of kvs FILES of
        None \<Rightarrow> Inr (PyDict (AList.update FILES (PyList [part]) kvs))
      | Some (PyList fs) \<Rightarrow> Inr (PyDict (AList.update FILES (PyList (fs @ [part])) kvs))
      | Some (PyDict d) \<Rightarrow> Inl AttributeError)"
  by simp

lemma add_parts_dir:
  "part \<noteq> [] \<Longrightarrow> rest \<noteq> [] \<Longrightarrow> add_parts (part # rest) (PyDict kvs) =
     (case add_parts rest (case map_of kvs part of None \<Rightarrow> PyDict [] | Some v \<Rightarrow> v) of
        Inl e \<Rightarrow> Inl e
      | Inr child \<Rightarrow> Inr (PyDict (AList.update part child kvs)))"
  by simp

lemma add_parts_list:
  "add_parts parts (PyList xs) = Inr t \<Longrightarrow> t = PyList xs \<and> (\<forall>p \<in> set parts. p = [])"
  by (induction parts) (auto split: if_splits)

lemma add_parts_cases:
  assumes "add_parts (part # rest) t = Inr t'"
  obtains
    (empty_part) "part = []" "add_parts rest t = Inr t'"
  | (file_part) kvs fs where "part \<noteq> []" "rest = []" "t = PyDict kvs"
      "map_of kvs FILES = None \<and> fs = [] \<or> map_of kvs FILES = Some (PyList fs)"
      "t' = PyDict (AList.update FILES (PyList (fs @ [part])) kvs)"
  | (dir_part) kvs child where "part \<noteq> []" "rest \<noteq> []" "t = PyDict kvs"
      "add_parts rest (case map_of kvs part of None \<Rightarrow> PyDict [] | Some v \<Rightarrow> v) = Inr child"
      "t' = PyDict (AList.update part child kvs)"
  using assms
  by (cases t) (auto split: if_splits option.splits pyval.splits sum.splits)

subsection \<open>What is built stays\<close>

lemma keys_update_take:
  "map fst kvs = take (length kvs) (map fst (AList.update k v kvs))"
  by (simp add: update_keys)

lemma add_parts_keeps_dict:
  "add_parts parts t = Inr t' \<Longrightarrow> node_at t ks = Some (PyDict kvs) \<Longrightarrow>
   \<exists>kvs'. node_at t' ks = Some (PyDict kvs') \<and> map fst kvs = take (length kvs) (map fst kvs')"
proof (induction parts arbitrary: t t' ks kvs)
  case Nil
  then show ?case by simp
next
  case (Cons part rest)
  from Cons.prems(1) show ?case
  proof (cases rule: add_parts_cases)
    case empty_part
    then show ?thesis using Cons.IH Cons.prems(2) by blast
  next
    case fp: (file_part kvs0 fs)
    show ?thesis
    proof (cases ks)
      case Nil
      then show ?thesis using fp Cons.prems(2) by (simp add: update_keys)
    next
      case (Cons k ks')
      then show ?thesis using fp Cons.prems(2)
        by (cases ks') (auto simp: update_conv' split: option.splits if_splits)
    qed
  next
    case dp: (dir_part kvs0 child)
    show ?thesis
    proof (cases ks)
      case Nil
      then show ?thesis using dp Cons.prems(2) by (simp add: update_keys)
    next
      case ks: (Cons k ks')
      show ?thesis
      proof (cases "k = part")
        case True
        then obtain v where v: "map_of kvs0 part = Some v" "node_at v ks' = Some (PyDict kvs)"
          using Cons.prems(2) dp(3) ks by (auto split: option.splits)
        from Cons.IH[OF dp(4)[unfolded v(1), simplified] v(2)]
        show ?thesis using True ks dp(5) by (simp add: update_conv')
      next
        case False
        then show ?thesis using ks dp Cons.prems(2) by (simp add: update_conv')
      qed
    qed
  qed
qed

lemma add_parts_keeps_list:
  "add_parts parts t = Inr t' \<Longrightarrow> node_at t ks = Some (PyList fs) \<Longrightarrow>
   \<exists>fs'. node_at t' ks = Some (PyList (fs @ fs'))"
proof (induction parts arbitrary: t t' ks)
  case Nil
  then show ?case by simp
next
  case (Cons part rest)
  from Cons.prems(1) show ?case
  proof (cases rule: add_parts_cases)
    case empty_part
    then show ?thesis using Cons.IH Cons.prems(2) by blast
  next
    case fp: (file_part kvs0 fs0)
    show ?thesis
    proof (cases ks)
      case Nil
      then show ?thesis using fp Cons.prems(2) by simp
    next
      case (Cons k ks')
      then show ?thesis using fp Cons.prems(2)
        by (cases ks') (auto simp: update_conv' split: option.splits if_splits)
    qed
  next
    case dp: (dir_part kvs0 child)
    show ?thesis
    proof (cases ks)
      case Nil
      then show ?thesis using dp Cons.prems(2) by simp
    next
      case ks: (Cons k ks')
      show ?thesis
      proof (cases "k = part")
        case True
        then obtain v where v: "map_of kvs0 part = Some v" "node_at v ks' = Some (PyList fs)"
          using Cons.prems(2) dp(3) ks by (auto split: option.splits)
        from Cons.IH[OF dp(4)[unfolded v(1), simplified] v(2)]
        show ?thesis using True ks dp(5) by (simp add: update_conv')
      next
        case False
        then show ?thesis using ks dp Cons.prems(2) by (simp add: update_conv')
      qed
    qed
  qed
qed

lemma analyze_loop_snoc:
  "analyze_loop sep role_name (ps @ [p]) s =
     (case analyze_loop sep role_name ps s of
        Inl e \<Rightarrow> Inl e
      | Inr t \<Rightarrow> add_parts (strip_role role_name (split_sep sep p)) t)"
  by (induction ps arbitrary: s) (auto split: sum.splits)

subsection \<open>The files and directories of a level after one path\<close>

lemma dirs_of_empty_part: "dirs_of ([] # rest) = dirs_of rest"
  by (cases rest) (simp_all add: dirs_of_def)

lemma file_of_empty_part: "file_of ([] # rest) = file_of rest"
  by (simp add: file_of_def)

lemma dirs_of_single: "dirs_of [part] = []"
  by (simp add: dirs_of_def)

lemma dirs_of_dir_part: "part \<noteq> [] \<Longrightarrow> rest \<noteq> [] \<Longrightarrow> dirs_of (part # rest) = part # dirs_of rest"
  by (simp add: dirs_of_def)

lemma file_of_dir_part: "rest \<noteq> [] \<Longrightarrow> file_of (part # rest) = file_of rest"
  by (simp add: file_of_def)

lemma files_at_empty_dict: "files_at (PyDict []) ds = []"
  by (cases ds) simp_all

lemma subdirs_at_empty_dict: "subdirs_at (PyDict []) ds = []"
  by (cases ds) simp_all

lemma add_parts_files_at:
  "add_parts parts t = Inr t' \<Longrightarrow> FILES \<notin> set parts \<Longrightarrow>
   files_at t' ds =
     files_at t ds @ (if dirs_of parts = ds \<and> file_of parts \<noteq> [] then [file_of parts] else [])"
proof (induction parts arbitrary: t t' ds)
  case Nil
  then show ?case by (simp add: file_of_def)
next
  case (Cons part rest)
  from Cons.prems(1) show ?case
  proof (cases rule: add_parts_cases)
    case empty_part
    then show ?thesis using Cons.IH[of t t' ds] Cons.prems(2)
      by (simp add: dirs_of_empty_part file_of_empty_part)
  next
    case fp: (file_part kvs fs)
    show ?thesis
    proof (cases ds)
      case Nil
      then show ?thesis using fp
        by (auto simp: update_conv' dirs_of_single file_of_def)
    next
      case (Cons d ds')
      then show ?thesis using fp
        by (auto simp: update_conv' dirs_of_single file_of_def)
    qed
  next
    case dp: (dir_part kvs child)
    have ne: "part \<noteq> FILES" using Cons.prems(2) by auto
    have r: "FILES \<notin> set rest" using Cons.prems(2) by auto
    note IH = Cons.IH[OF dp(4) r]
    show ?thesis
    proof (cases ds)
      case Nil
      then show ?thesis using dp ne
        by (simp add: update_conv' dirs_of_dir_part)
    next
      case ds: (Cons d ds')
      show ?thesis
      proof (cases "d = part")
        case True
        then show ?thesis using ds dp IH[of ds']
          by (auto simp: update_conv' dirs_of_dir_part file_of_dir_part files_at_empty_dict
              split: option.splits)
      next
        case False
        then show ?thesis using ds dp
          by (auto simp: update_conv' dirs_of_dir_part)
      qed
    qed
  qed
qed

lemma add_parts_subdirs_at:
  "add_parts parts t = Inr t' \<Longrightarrow> FILES \<notin> set parts \<Longrightarrow>
   subdirs_at t' ds =
     subdirs_at t ds @
       (if length ds < length (dirs_of parts) \<and> take (length ds) (dirs_of parts) = ds \<and>
           dirs_of parts ! length ds \<notin> set (subdirs_at t ds)
        then [dirs_of parts ! length ds] else [])"
proof (induction parts arbitrary: t t' ds)
  case Nil
  then show ?case by (simp add: dirs_of_def)
next
  case (Cons part rest)
  from Cons.prems(1) show ?case
  proof (cases rule: add_parts_cases)
    case empty_part
    then show ?thesis using Cons.IH[of t t' ds] Cons.prems(2)
      by (simp add: dirs_of_empty_part)
  next
    case fp: (file_part kvs fs)
    show ?thesis
    proof (cases ds)
      case Nil
      then show ?thesis using fp
        by (auto simp: update_keys dirs_of_single)
    next
      case (Cons d ds')
      then show ?thesis using fp
        by (auto simp: update_conv' dirs_of_single)
    qed
  next
    case dp: (dir_part kvs child)
    have ne: "part \<noteq> FILES" using Cons.prems(2) by auto
    have r: "FILES \<notin> set rest" using Cons.prems(2) by auto
    note IH = Cons.IH[OF dp(4) r]
    show ?thesis
    proof (cases ds)
      case Nil
      then show ?thesis using dp ne
        by (auto simp: update_keys dirs_of_dir_part)
    next
      case ds: (Cons d ds')
      show ?thesis
      proof (cases "d = part")
        case True
        then show ?thesis using ds dp IH[of ds']
          by (auto simp: update_conv' dirs_of_dir_part subdirs_at_empty_dict
              split: option.splits)
      next
        case False
        then show ?thesis using ds dp
          by (auto simp: update_conv' dirs_of_dir_part)
      qed
    qed
  qed
qed

subsection \<open>Paths without the files key always go in\<close>

lemma set_update_subset: "set (AList.update k v al) \<subseteq> insert (k, v) (set al)"
  by (induction al) auto

lemma plain_structure_update:
  assumes "plain_structure (PyDict kvs)"
    and "if k = FILES then (case v of PyList fs \<Rightarrow> True | PyDict d \<Rightarrow> False) else plain_structure v"
  shows "plain_structure (PyDict (AList.update k v kvs))"
proof -
  have "\<And>k' v'. (k', v') \<in> set (AList.update k v kvs) \<Longrightarrow> (k', v') = (k, v) \<or> (k', v') \<in> set kvs"
    using set_update_subset[of k v kvs] by auto
  then show ?thesis using assms by fastforce
qed

lemma plain_structure_lookup:
  assumes "plain_structure (PyDict kvs)" "map_of kvs k = Some v"
  shows "if k = FILES then (\<exists>fs. v = PyList fs) else plain_structure v"
proof -
  have mem: "(k, v) \<in> set kvs" using assms(2) by (rule map_of_SomeD)
  from assms(1) have every: "\<forall>(k, v) \<in> set kvs.
        if k = FILES then (case v of PyList fs \<Rightarrow> True | PyDict d \<Rightarrow> False)
        else plain_structure v"
    by simp
  from bspec[OF every mem]
  have "if k = FILES then (case v of PyList fs \<Rightarrow> True | PyDict d \<Rightarrow> False)
        else plain_structure v"
    by simp
  then show ?thesis
    by (simp del: plain_structure.simps split: pyval.splits if_splits)
qed

lemma add_parts_plain:
  "plain_structure t \<Longrightarrow> FILES \<notin> set parts \<Longrightarrow>
   \<exists>t'. add_parts parts t = Inr t' \<and> plain_structure t'"
proof (induction parts arbitrary: t)
  case Nil
  then show ?case by simp
next
  case (Cons part rest)
  from Cons.prems(1) obtain kvs where t: "t = PyDict kvs"
    by (cases t) auto
  have pk: "plain_structure (PyDict kvs)" using Cons.prems(1) t by simp
  show ?case
  proof (cases "part = []")
    case True
    then show ?thesis using Cons by simp
  next
    case part: False
    show ?thesis
    proof (cases "rest = []")
      case True
      show ?thesis
      proof (cases "map_of kvs FILES")
        case None
        then show ?thesis using True part t plain_structure_update[OF pk, of FILES "PyList [part]"]
          by (simp add: add_parts_file del: add_parts.simps plain_structure.simps)
      next
        case (Some v)
        then obtain fs where "v = PyList fs" using plain_structure_lookup[OF pk Some] by auto
        then show ?thesis using Some True part t
            plain_structure_update[OF pk, of FILES "PyList (fs @ [part])"]
          by (simp add: add_parts_file del: add_parts.simps plain_structure.simps)
      qed
    next
      case False
      let ?v0 = "case map_of kvs part of None \<Rightarrow> PyDict [] | Some v \<Rightarrow> v"
      have ne: "part \<noteq> FILES" using Cons.prems(2) by auto
      have "plain_structure ?v0"
      proof (cases "map_of kvs part")
        case None
        then show ?thesis by simp
      next
        case (Some v)
        then show ?thesis using plain_structure_lookup[OF pk Some] ne by simp
      qed
      then obtain child where c: "add_parts rest ?v0 = Inr child" "plain_structure child"
        using Cons.IH[of ?v0] Cons.prems(2) by auto
      have "plain_structure (PyDict (AList.update part child kvs))"
        using plain_structure_update[OF pk, of part child] c(2) ne by simp
      then show ?thesis using t part False c(1)
        by (simp add: add_parts_dir del: add_parts.simps plain_structure.simps)
    qed
  qed
qed

subsection \<open>Splitting, and the loop over the file list\<close>




lemma take_Suc_eq_snoc:
  "take (Suc (length ds)) q = ds @ [d] \<longleftrightarrow>
   length ds < length q \<and> take (length ds) q = ds \<and> q ! length ds = d"
proof
  assume a: "take (Suc (length ds)) q = ds @ [d]"
  then have "length (take (Suc (length ds)) q) = Suc (length ds)" by simp
  then have l: "length ds < length q" by simp
  from a l show "length ds < length q \<and> take (length ds) q = ds \<and> q ! length ds = d"
    by (simp add: take_Suc_conv_app_nth)
next
  assume "length ds < length q \<and> take (length ds) q = ds \<and> q ! length ds = d"
  then show "take (Suc (length ds)) q = ds @ [d]"
    by (simp add: take_Suc_conv_app_nth)
qed

lemma path_parts_plain:
  "FILES \<notin> set (split_sep sep p) \<Longrightarrow> FILES \<notin> set (path_parts sep role_name p)"
  by (auto simp: path_parts_def strip_role_def dest: list.set_sel(2)[rotated])

lemma analyze_loop_Cons:
  "analyze_loop sep role_name (p # ps) t =
     (case add_parts (path_parts sep role_name p) t of
        Inl e \<Rightarrow> Inl e
      | Inr t' \<Rightarrow> analyze_loop sep role_name ps t')"
  by (simp add: path_parts_def)

lemma analyze_loop_plain:
  "plain_structure t \<Longrightarrow> plain_paths sep ps \<Longrightarrow>
   \<exists>t'. analyze_loop sep role_name ps t = Inr t' \<and> plain_structure t'"
proof (induction ps arbitrary: t)
  case Nil
  then show ?case by simp
next
  case (Cons p ps)
  have "FILES \<notin> set (path_parts sep role_name p)"
    using Cons.prems(2) by (simp add: plain_paths_def path_parts_plain)
  from add_parts_plain[OF Cons.prems(1) this]
  obtain t1 where t1: "add_parts (path_parts sep role_name p) t = Inr t1" "plain_structure t1"
    by blast
  have "plain_paths sep ps" using Cons.prems(2) by (simp add: plain_paths_def)
  from Cons.IH[OF t1(2) this] show ?case
    using t1(1) by (simp add: analyze_loop_Cons del: analyze_loop.simps)
qed

lemma analyze_loop_files_at:
  "analyze_loop sep role_name ps t = Inr t' \<Longrightarrow> plain_paths sep ps \<Longrightarrow>
   files_at t' ds =
     files_at t ds @
       map file_of (filter (\<lambda>q. dirs_of q = ds \<and> file_of q \<noteq> [])
                           (map (path_parts sep role_name) ps))"
proof (induction ps arbitrary: t)
  case Nil
  then show ?case by simp
next
  case (Cons p ps)
  from Cons.prems(1) obtain t1 where
    t1: "add_parts (path_parts sep role_name p) t = Inr t1"
    and l: "analyze_loop sep role_name ps t1 = Inr t'"
    by (auto simp: analyze_loop_Cons simp del: analyze_loop.simps split: sum.splits)
  have pl: "FILES \<notin> set (path_parts sep role_name p)"
    using Cons.prems(2) by (simp add: plain_paths_def path_parts_plain)
  have "plain_paths sep ps" using Cons.prems(2) by (simp add: plain_paths_def)
  from Cons.IH[OF l this] add_parts_files_at[OF t1 pl, of ds]
  show ?case by simp
qed

lemma analyze_loop_subdirs_at:
  "analyze_loop sep role_name ps t = Inr t' \<Longrightarrow> plain_paths sep ps \<Longrightarrow>
   set (subdirs_at t' ds) =
     set (subdirs_at t ds) \<union>
       {d. \<exists>p \<in> set ps. take (Suc (length ds)) (dirs_of (path_parts sep role_name p)) = ds @ [d]}"
proof (induction ps arbitrary: t)
  case Nil
  then show ?case by simp
next
  case (Cons p ps)
  from Cons.prems(1) obtain t1 where
    t1: "add_parts (path_parts sep role_name p) t = Inr t1"
    and l: "analyze_loop sep role_name ps t1 = Inr t'"
    by (auto simp: analyze_loop_Cons simp del: analyze_loop.simps split: sum.splits)
  have pl: "FILES \<notin> set (path_parts sep role_name p)"
    using Cons.prems(2) by (simp add: plain_paths_def path_parts_plain)
  have "plain_paths sep ps" using Cons.prems(2) by (simp add: plain_paths_def)
  from Cons.IH[OF l this] add_parts_subdirs_at[OF t1 pl, of ds]
  show ?case by (auto simp: take_Suc_eq_snoc)
qed

lemma analyze_structure_sep_plain:
  assumes "plain_paths sep ps"
  shows "\<exists>t. analyze_structure_sep sep role_name ps = Inr t \<and> plain_structure t"
  unfolding analyze_structure_sep_def
  using analyze_loop_plain[of "PyDict []" sep ps role_name] assms by simp

lemma analyze_structure_sep_files_at:
  assumes "analyze_structure_sep sep role_name ps = Inr t" "plain_paths sep ps"
  shows "files_at t ds =
     map file_of (filter (\<lambda>q. dirs_of q = ds \<and> file_of q \<noteq> [])
                         (map (path_parts sep role_name) ps))"
  using analyze_loop_files_at[OF assms(1)[unfolded analyze_structure_sep_def] assms(2), of ds]
  by (simp add: files_at_empty_dict)

lemma analyze_structure_sep_subdirs_at:
  assumes "analyze_structure_sep sep role_name ps = Inr t" "plain_paths sep ps"
  shows "set (subdirs_at t ds) =
     {d. \<exists>p \<in> set ps. take (Suc (length ds)) (dirs_of (path_parts sep role_name p)) = ds @ [d]}"
  using analyze_loop_subdirs_at[OF assms(1)[unfolded analyze_structure_sep_def] assms(2), of ds]
  by (simp add: subdirs_at_empty_dict)

lemma analyze_structure_shape_order_insensitive:
  assumes "plain_paths sep ps" "mset ps' = mset ps"
  shows "\<exists>t t'. analyze_structure_sep sep role_name ps = Inr t \<and>
                analyze_structure_sep sep role_name ps' = Inr t' \<and>
                (\<forall>ds. set (subdirs_at t' ds) = set (subdirs_at t ds) \<and>
                      mset (files_at t' ds) = mset (files_at t ds))"
proof -
  have s: "set ps' = set ps" using assms(2) by (rule mset_eq_setD)
  then have pl': "plain_paths sep ps'" using assms(1) by (simp add: plain_paths_def)
  obtain t where t: "analyze_structure_sep sep role_name ps = Inr t"
    using analyze_structure_sep_plain[OF assms(1)] by blast
  obtain t' where t': "analyze_structure_sep sep role_name ps' = Inr t'"
    using analyze_structure_sep_plain[OF pl'] by blast
  have "mset (files_at t' ds) = mset (files_at t ds)" for ds
    unfolding analyze_structure_sep_files_at[OF t assms(1)]
      analyze_structure_sep_files_at[OF t' pl']
    by (simp add: assms(2))
  moreover have "set (subdirs_at t' ds) = set (subdirs_at t ds)" for ds
    unfolding analyze_structure_sep_subdirs_at[OF t assms(1)]
      analyze_structure_sep_subdirs_at[OF t' pl'] s ..
  ultimately show ?thesis using t t' by blast
qed

subsection \<open>File lines, empty parts and the lines of the directories\<close>






lemma format_items_keys:
  "format_items items files prefix indent = Inr (lines, items') \<Longrightarrow>
   map fst items' = map fst items"
proof (induction items arbitrary: lines items')
  case Nil
  then show ?case by simp
next
  case (Cons item rest)
  obtain key val where item: "item = (key, val)" by (cases item)
  from Cons.prems obtain rest_lines rest' val' where
    r: "format_items rest files prefix indent = Inr (rest_lines, rest')"
    and i: "items' = (key, val') # rest'"
    unfolding item by (auto simp: Let_def split: sum.splits if_splits prod.splits)
  from Cons.IH[OF r] i show ?case by (simp add: item)
qed

lemma format_structure_pops_files:
  assumes "format_structure (PyDict kvs) prefix indent = Inr (text, structure')"
  shows "\<exists>items'. structure' = PyDict items' \<and>
                   map fst items' = removeAll FILES (map fst kvs)"
proof -
  from assms obtain lines items' where
    i: "format_items (snd (pop_files kvs)) (fst (pop_files kvs)) prefix indent = Inr (lines, items')"
    and s: "structure' = PyDict items'"
    by (auto split: sum.splits prod.splits)
  from format_items_keys[OF i] s show ?thesis
    by (simp add: pop_files_def delete_keys)
qed

subsection \<open>Directories stand in the order of their first path\<close>

lemma remdups_append_filter:
  "remdups (xs @ ys) = filter (\<lambda>x. x \<notin> set ys) (remdups xs) @ remdups ys"
  by (induction xs) auto

lemma first_seen_append:
  "first_seen (xs @ ys) = first_seen xs @ filter (\<lambda>y. y \<notin> set xs) (first_seen ys)"
  by (simp add: first_seen_def remdups_append_filter rev_filter)

lemma set_first_seen: "set (first_seen xs) = set xs"
  by (simp add: first_seen_def)

lemma first_seen_dir_below: "first_seen (dir_below ds parts) = dir_below ds parts"
  by (simp add: first_seen_def dir_below_def)

lemma add_parts_subdirs_at_filter:
  assumes "add_parts parts t = Inr t'" "FILES \<notin> set parts"
  shows "subdirs_at t' ds =
     subdirs_at t ds @ filter (\<lambda>d. d \<notin> set (subdirs_at t ds)) (dir_below ds parts)"
  using add_parts_subdirs_at[OF assms, of ds] by (simp add: dir_below_def)

lemma analyze_loop_subdirs_order:
  "analyze_loop sep role_name ps t = Inr t' \<Longrightarrow> plain_paths sep ps \<Longrightarrow>
   subdirs_at t' ds =
     subdirs_at t ds @
       filter (\<lambda>d. d \<notin> set (subdirs_at t ds))
         (first_seen (concat (map (\<lambda>p. dir_below ds (path_parts sep role_name p)) ps)))"
proof (induction ps arbitrary: t)
  case Nil
  then show ?case by (simp add: first_seen_def)
next
  case (Cons p ps)
  from Cons.prems(1) obtain t1 where
    t1: "add_parts (path_parts sep role_name p) t = Inr t1"
    and l: "analyze_loop sep role_name ps t1 = Inr t'"
    by (auto simp: analyze_loop_Cons simp del: analyze_loop.simps split: sum.splits)
  have pl: "FILES \<notin> set (path_parts sep role_name p)"
    using Cons.prems(2) by (simp add: plain_paths_def path_parts_plain)
  have pp: "plain_paths sep ps" using Cons.prems(2) by (simp add: plain_paths_def)
  let ?S = "subdirs_at t ds"
  let ?P = "dir_below ds (path_parts sep role_name p)"
  let ?Y = "first_seen (concat (map (\<lambda>p. dir_below ds (path_parts sep role_name p)) ps))"
  have s1: "subdirs_at t1 ds = ?S @ filter (\<lambda>d. d \<notin> set ?S) ?P"
    by (rule add_parts_subdirs_at_filter[OF t1 pl])
  have "subdirs_at t' ds = subdirs_at t1 ds @ filter (\<lambda>d. d \<notin> set (subdirs_at t1 ds)) ?Y"
    by (rule Cons.IH[OF l pp])
  also have "\<dots> = ?S @ filter (\<lambda>d. d \<notin> set ?S) ?P @
                     filter (\<lambda>d. d \<notin> set ?S) (filter (\<lambda>y. y \<notin> set ?P) ?Y)"
    unfolding s1 by (auto intro: filter_cong)
  also have "\<dots> = ?S @ filter (\<lambda>d. d \<notin> set ?S)
      (first_seen (concat (map (\<lambda>p. dir_below ds (path_parts sep role_name p)) (p # ps))))"
    by (simp add: first_seen_append first_seen_dir_below)
  finally show ?case .
qed

lemma analyze_structure_sep_subdirs_order:
  assumes "analyze_structure_sep sep role_name ps = Inr t" "plain_paths sep ps"
  shows "subdirs_at t ds =
     first_seen (concat (map (\<lambda>p. dir_below ds (path_parts sep role_name p)) ps))"
  using analyze_loop_subdirs_order[OF assms(1)[unfolded analyze_structure_sep_def] assms(2), of ds]
  by (simp add: subdirs_at_empty_dict)

subsection \<open>Formatting what the analysis built\<close>









subsection \<open>A path at any place of the file list\<close>





section \<open>The specification's claims\<close>

subsection \<open>The example tree\<close>

text \<open>
  C1. The paths \<^verbatim>\<open>a/b/file1.txt\<close>, \<^verbatim>\<open>a/c/file2.txt\<close>, \<^verbatim>\<open>root.txt\<close>
  with an empty role name are analysed and formatted to six lines, in this
  order: the first-level entries \<^verbatim>\<open>a/\<close> and \<^verbatim>\<open>root.txt\<close> bare, the nested
  entries behind four-character indent blocks and a branch glyph.
\<close>

theorem structure_text_example:
  "structure_text '''' [''a/b/file1.txt'', ''a/c/file2.txt'', ''root.txt''] =
     Inr (join NL
       [''a/'',
        ''    '' @ MID_BRANCH @ ''b/'',
        ''    '' @ BAR_INDENT @ LAST_BRANCH @ ''file1.txt'',
        ''    '' @ LAST_BRANCH @ ''c/'',
        ''    '' @ ''    '' @ LAST_BRANCH @ ''file2.txt'',
        ''root.txt''])"
  by code_simp

subsection \<open>Adding a path only adds\<close>

text \<open>
  C10. When the analysis of a file list followed by one more path succeeds, the
  analysis of the file list alone succeeds too, and what it built is still
  there: under every list of keys that led to a dictionary there is a
  dictionary again, whose keys begin with the old keys in the old order, and
  under every list of keys that led to a file list there is a file list that
  begins with the old entries.
\<close>

theorem analyze_structure_monotone:
  assumes "analyze_structure_sep sep role_name (ps @ [p]) = Inr t'"
  shows "\<exists>t. analyze_structure_sep sep role_name ps = Inr t \<and>
     (\<forall>ks. (\<forall>kvs. node_at t ks = Some (PyDict kvs) \<longrightarrow>
                (\<exists>kvs'. node_at t' ks = Some (PyDict kvs') \<and>
                        map fst kvs = take (length kvs) (map fst kvs'))) \<and>
           (\<forall>fs. node_at t ks = Some (PyList fs) \<longrightarrow>
                (\<exists>fs'. node_at t' ks = Some (PyList (fs @ fs')))))"
proof -
  from assms obtain t where
    t: "analyze_structure_sep sep role_name ps = Inr t"
    and a: "add_parts (strip_role role_name (split_sep sep p)) t = Inr t'"
    by (auto simp: analyze_structure_sep_def analyze_loop_snoc split: sum.splits)
  show ?thesis
    using t add_parts_keeps_dict[OF a] add_parts_keeps_list[OF a] by blast
qed

theorem analyze_structure_monotone_witness:
  "analyze_structure_sep CHR ''/'' '''' ([''a/x''] @ [''a/y'']) =
     Inr (PyDict [(''a'', PyDict [(FILES, PyList [''x'', ''y''])])]) \<and>
   (\<exists>t. analyze_structure_sep CHR ''/'' '''' [''a/x''] = Inr t \<and>
     (\<forall>ks. (\<forall>kvs. node_at t ks = Some (PyDict kvs) \<longrightarrow>
                (\<exists>kvs'. node_at (PyDict [(''a'', PyDict [(FILES, PyList [''x'', ''y''])])]) ks
                          = Some (PyDict kvs') \<and>
                        map fst kvs = take (length kvs) (map fst kvs'))) \<and>
           (\<forall>fs. node_at t ks = Some (PyList fs) \<longrightarrow>
                (\<exists>fs'. node_at (PyDict [(''a'', PyDict [(FILES, PyList [''x'', ''y''])])]) ks
                          = Some (PyList (fs @ fs'))))))"
proof -
  have h: "analyze_structure_sep CHR ''/'' '''' ([''a/x''] @ [''a/y'']) =
     Inr (PyDict [(''a'', PyDict [(FILES, PyList [''x'', ''y''])])])"
    by code_simp
  from h analyze_structure_monotone [OF h] show ?thesis
    by (rule conjI)
qed

subsection \<open>File names are kept in a list\<close>




subsection \<open>A name can be a file and a directory\<close>

text \<open>
  C6, as the specification has it, fails: for the paths \<^verbatim>\<open>a\<close> and \<^verbatim>\<open>a/b\<close>
  the first level holds both the file \<^verbatim>\<open>a\<close> and the directory \<^verbatim>\<open>a\<close>.
\<close>

theorem file_and_directory_of_one_name:
  "analyze_structure '''' [''a'', ''a/b''] =
     Inr (PyDict [(FILES, PyList [''a'']), (''a'', PyDict [(FILES, PyList [''b''])])])"
  by code_simp

text \<open>
  C6, amended. For a file list in which no part of a path is the files key, a
  name is a file of a level exactly when some path ends at that level with
  that name, and a directory of the level exactly when some path runs through
  it at that level. The two are recorded apart (file names in the list under
  the files key, directory names as keys), so a name that paths use both ways
  is both a file and a directory of the level, and nothing is dropped.
\<close>

theorem files_and_directories_independent:
  assumes "plain_paths sep file_list"
  shows "\<exists>t. analyze_structure_sep sep role_name file_list = Inr t \<and>
     (\<forall>ds f. f \<in> set (files_at t ds) \<longleftrightarrow>
        (\<exists>p \<in> set file_list. dirs_of (path_parts sep role_name p) = ds \<and>
                              file_of (path_parts sep role_name p) = f \<and> f \<noteq> [])) \<and>
     (\<forall>ds d. d \<in> set (subdirs_at t ds) \<longleftrightarrow>
        (\<exists>p \<in> set file_list.
           take (Suc (length ds)) (dirs_of (path_parts sep role_name p)) = ds @ [d]))"
proof -
  obtain t where t: "analyze_structure_sep sep role_name file_list = Inr t"
    using analyze_structure_sep_plain[OF assms] by blast
  have "f \<in> set (files_at t ds) \<longleftrightarrow>
        (\<exists>p \<in> set file_list. dirs_of (path_parts sep role_name p) = ds \<and>
                              file_of (path_parts sep role_name p) = f \<and> f \<noteq> [])" for ds f
    unfolding analyze_structure_sep_files_at[OF t assms] by auto
  moreover have "d \<in> set (subdirs_at t ds) \<longleftrightarrow>
        (\<exists>p \<in> set file_list.
           take (Suc (length ds)) (dirs_of (path_parts sep role_name p)) = ds @ [d])" for ds d
    unfolding analyze_structure_sep_subdirs_at[OF t assms] by simp
  ultimately show ?thesis using t by blast
qed

theorem files_and_directories_independent_witness:
  "plain_paths CHR ''/'' [''a'', ''a/b''] \<and>
   (\<exists>t. analyze_structure_sep CHR ''/'' '''' [''a'', ''a/b''] = Inr t \<and>
        ''a'' \<in> set (files_at t []) \<and> ''a'' \<in> set (subdirs_at t []))"
proof -
  have h: "plain_paths CHR ''/'' [''a'', ''a/b'']"
    by (simp add: plain_paths_def FILES_def)
  from files_and_directories_independent [OF h, of "''''"] obtain t where
    t: "analyze_structure_sep CHR ''/'' '''' [''a'', ''a/b''] = Inr t"
    and f: "\<And>ds f. f \<in> set (files_at t ds) \<longleftrightarrow>
        (\<exists>p \<in> set [''a'', ''a/b'']. dirs_of (path_parts CHR ''/'' '''' p) = ds \<and>
                              file_of (path_parts CHR ''/'' '''' p) = f \<and> f \<noteq> [])"
    and d: "\<And>ds d. d \<in> set (subdirs_at t ds) \<longleftrightarrow>
        (\<exists>p \<in> set [''a'', ''a/b''].
           take (Suc (length ds)) (dirs_of (path_parts CHR ''/'' '''' p)) = ds @ [d])"
    by blast
  have "''a'' \<in> set (files_at t [])"
    unfolding f by (simp add: path_parts_def strip_role_def dirs_of_def file_of_def)
  moreover have "''a'' \<in> set (subdirs_at t [])"
    unfolding d by (simp add: path_parts_def strip_role_def dirs_of_def file_of_def)
  ultimately show ?thesis using h t
    by (intro conjI exI[of _ t])
qed

subsection \<open>The role name at the head of a path\<close>




subsection \<open>Empty parts\<close>




subsection \<open>The order of the lines of a level\<close>




subsection \<open>Paths with the files key as a part\<close>

text \<open>
  C2. The analysis is not total: a directory part \<^verbatim>\<open>__files__\<close> meets the
  entry that holds the file names of the level. After a file of the first
  level the path \<^verbatim>\<open>__files__/y\<close> walks into the file list and subscripts it
  with a string; in the other order the file \<^verbatim>\<open>x\<close> is appended to the
  dictionary that the path created. Both raise. (For file lists without such
  a part the analysis always returns: \<open>analyze_structure_sep_plain\<close>.)
\<close>

theorem files_segment_raises:
  "analyze_structure '''' [''x'', ''__files__/y''] = Inl TypeError \<and>
   analyze_structure '''' [''__files__/y'', ''x''] = Inl AttributeError"
  by code_simp

text \<open>
  C9. The same collision makes the outcome depend on the order of the paths:
  of these two orders of the same two paths one returns a structure and the
  other raises. (For file lists without a part \<^verbatim>\<open>__files__\<close> both orders
  return, with the same directory names and the same file names at every
  level: \<open>analyze_structure_shape_order_insensitive\<close>.)
\<close>

theorem order_decides_failure:
  "analyze_structure '''' [''x'', ''__files__/''] = Inr (PyDict [(FILES, PyList [''x''])]) \<and>
   analyze_structure '''' [''__files__/'', ''x''] = Inl AttributeError"
  by code_simp

subsection \<open>Formatting a structure twice\<close>

text \<open>
  C3. Formatting pops the files entry of every dictionary it visits, so the
  structure is not the same afterwards (\<open>format_structure_pops_files\<close>):
  formatted a second time, the structure of the example gives the three
  directory lines only.
\<close>

theorem second_format_loses_files:
  "analyze_structure '''' [''a/b/file1.txt'', ''a/c/file2.txt'', ''root.txt''] =
     Inr (PyDict [(''a'', PyDict [(''b'', PyDict [(FILES, PyList [''file1.txt''])]),
                                  (''c'', PyDict [(FILES, PyList [''file2.txt''])])]),
                  (FILES, PyList [''root.txt''])]) \<and>
   format_structure
     (PyDict [(''a'', PyDict [(''b'', PyDict [(FILES, PyList [''file1.txt''])]),
                              (''c'', PyDict [(FILES, PyList [''file2.txt''])])]),
              (FILES, PyList [''root.txt''])]) [] [] =
     Inr (join NL [''a/'',
                   ''    '' @ MID_BRANCH @ ''b/'',
                   ''    '' @ BAR_INDENT @ LAST_BRANCH @ ''file1.txt'',
                   ''    '' @ LAST_BRANCH @ ''c/'',
                   ''    '' @ ''    '' @ LAST_BRANCH @ ''file2.txt'',
                   ''root.txt''],
          PyDict [(''a'', PyDict [(''b'', PyDict []), (''c'', PyDict [])])]) \<and>
   format_structure (PyDict [(''a'', PyDict [(''b'', PyDict []), (''c'', PyDict [])])]) [] [] =
     Inr (join NL [''a/'', ''    '' @ MID_BRANCH @ ''b/'', ''    '' @ LAST_BRANCH @ ''c/''],
          PyDict [(''a'', PyDict [(''b'', PyDict []), (''c'', PyDict [])])])"
  by code_simp

end
